theory Spec2Isabelle
  imports Main "HOL-Library.Sublist"
begin

section \<open>The verification script of VoiceInk\<close>

text \<open>
  The repository's source is one Python script,
  \<^verbatim>\<open>jules-scratch/verification/verify_transcription.py\<close>:
  \<^verbatim>\<open>
  from playwright.sync_api import sync_playwright

  def run(playwright):
      browser = playwright.chromium.launch()
      page = browser.new_page()
      page.goto("http://localhost:5173/")
      page.click("button")
      page.wait_for_selector("textarea:not(:empty)")
      page.screenshot(path="jules-scratch/verification/verification.png")
      browser.close()

  with sync_playwright() as playwright:
      run(playwright)
  \<close>
  The script is straight-line code over a browser-automation library that is not part of
  the repository. Its behaviour is the sequence of library calls it makes, the exception
  that ends it (if any), the exit status of the process and the file the screenshot call
  writes. The embedding makes these explicit: the library is a parameter that decides for
  every call whether it returns or raises, every call is recorded in a history, and an
  exception is a value \<open>Inl e\<close> that skips the rest, as in Python.
\<close>

subsection \<open>Library calls, their outcomes and the world\<close>

text \<open>
  One constructor for each library call of the script, with the literal arguments the
  call takes. \<open>Enter\<close> and \<open>Exit\<close> are the entry and exit of the context manager
  \<^verbatim>\<open>sync_playwright()\<close> of the \<^verbatim>\<open>with\<close> statement. The handles
  (\<^verbatim>\<open>playwright\<close>, \<^verbatim>\<open>browser\<close>, \<^verbatim>\<open>page\<close>) are opaque to the script: it only
  calls methods on the handle an earlier call returned, so the name of the call determines
  its receiver (\<open>Launch\<close> is \<^verbatim>\<open>playwright.chromium.launch()\<close>, \<open>New_page\<close> is
  \<^verbatim>\<open>browser.new_page()\<close>, \<open>Close\<close> is \<^verbatim>\<open>browser.close()\<close>, the others are methods of
  \<^verbatim>\<open>page\<close>).
\<close>

datatype call =
    Enter
  | Launch
  | New_page
  | Goto string
  | Click string
  | Wait_for_selector string
  | Screenshot string
  | Close
  | Exit

text \<open>An event is a call together with its outcome: \<open>None\<close> when the call returned,
  \<open>Some e\<close> when it raised the exception \<open>e\<close>.\<close>

type_synonym 'e event = "call \<times> 'e option"

text \<open>
  The library is a parameter of the model. \<open>outcome lib h c\<close> is what the call \<open>c\<close>
  does after the events \<open>h\<close>: return, or raise an exception of the type \<open>'e\<close>, which the
  script never inspects. \<open>rendering lib h\<close> is the picture (of type \<open>'f\<close>, the contents of a
  file) the page shows after the events \<open>h\<close>.
\<close>

record ('e, 'f) library =
  outcome :: "'e event list \<Rightarrow> call \<Rightarrow> 'e option"
  rendering :: "'e event list \<Rightarrow> 'f"

text \<open>The world the script runs in: the events so far, and the files by their paths.\<close>

record ('e, 'f) world =
  history :: "'e event list"
  files :: "string \<rightharpoonup> 'f"

text \<open>
  Modelled from the spec: what a library call that returns does to the files. The library
  is not under the repository's sources; the specification's operation 6 reads "Capture.
  Render the current visual state of the page to a PNG file at a fixed relative path.
  [...] Side effect: overwrites any existing file at that path", and names the screenshot
  as the sole durable output. So a screenshot call that returns stores the current picture
  under its path, replacing what was there, and no other call touches the files.
\<close>

fun effect :: "('e, 'f) library \<Rightarrow> call \<Rightarrow> ('e, 'f) world \<Rightarrow> ('e, 'f) world" where
  "effect lib (Screenshot path) w = w\<lparr>files := (files w)(path \<mapsto> rendering lib (history w))\<rparr>"
| "effect lib c w = w"

text \<open>
  A library call: the library decides the outcome, the event is appended to the history,
  and a call that raises has no effect on the files.
\<close>

definition invoke ::
  "('e, 'f) library \<Rightarrow> call \<Rightarrow> ('e, 'f) world \<Rightarrow> ('e + unit) \<times> ('e, 'f) world" where
  "invoke lib c w =
     (case outcome lib (history w) c of
        Some e \<Rightarrow> (Inl e, w\<lparr>history := history w @ [(c, Some e)]\<rparr>)
      | None \<Rightarrow> (Inr (), (effect lib c w)\<lparr>history := history w @ [(c, None)]\<rparr>))"

subsection \<open>The script\<close>

text \<open>
  Sequencing of two statements: the second runs only when the first returned; an
  exception of the first ends the sequence with that exception.
\<close>

definition and_then ::
  "('w \<Rightarrow> ('e + 'a) \<times> 'w) \<Rightarrow> ('a \<Rightarrow> 'w \<Rightarrow> ('e + 'b) \<times> 'w) \<Rightarrow> 'w \<Rightarrow> ('e + 'b) \<times> 'w" where
  "and_then m f w = (case m w of (Inl e, w') \<Rightarrow> (Inl e, w') | (Inr x, w') \<Rightarrow> f x w')"

text \<open>The function \<^verbatim>\<open>run\<close>, statement by statement. It has no exception handler:
  nothing is caught, retried or cleaned up inside it.\<close>

definition run :: "('e, 'f) library \<Rightarrow> ('e, 'f) world \<Rightarrow> ('e + unit) \<times> ('e, 'f) world" where
  "run lib =
     and_then (invoke lib Launch) (\<lambda>browser.
     and_then (invoke lib New_page) (\<lambda>page.
     and_then (invoke lib (Goto ''http://localhost:5173/'')) (\<lambda>_.
     and_then (invoke lib (Click ''button'')) (\<lambda>_.
     and_then (invoke lib (Wait_for_selector ''textarea:not(:empty)'')) (\<lambda>_.
     and_then (invoke lib (Screenshot ''jules-scratch/verification/verification.png'')) (\<lambda>_.
     invoke lib Close))))))"

text \<open>
  Modelled from the spec: the exit of the library's context manager, which is not under
  the repository's sources. Python's \<^verbatim>\<open>with\<close> statement calls it when the block is
  left, on the normal and on the exceptional path. The specification's failure taxonomy
  (section 7) gives this teardown no failure of its own and calls the release of the
  session "the only guaranteed cleanup"; it does not swallow the exception of the
  block. So the exit is recorded as a call that returns, and the outcome of the block is
  passed on.
\<close>

definition leave :: "('e, 'f) world \<Rightarrow> ('e, 'f) world" where
  "leave w = w\<lparr>history := history w @ [(Exit, None)]\<rparr>"

text \<open>
  The module body, the \<^verbatim>\<open>with\<close> statement around \<^verbatim>\<open>run(playwright)\<close>. When the
  entry of the context manager raises, the block is not run and the exit is not called.
  The model begins after the \<^verbatim>\<open>import\<close> has succeeded.
\<close>

definition script :: "('e, 'f) library \<Rightarrow> ('e, 'f) world \<Rightarrow> ('e + unit) \<times> ('e, 'f) world" where
  "script lib w0 =
     (case invoke lib Enter w0 of
        (Inl e, w1) \<Rightarrow> (Inl e, w1)
      | (Inr playwright, w1) \<Rightarrow> (case run lib w1 of (r, w2) \<Rightarrow> (r, leave w2)))"

text \<open>The exit status of the Python process: 0 when the module body returns, 1 when an
  exception leaves it uncaught.\<close>

fun exit_status :: "'e + unit \<Rightarrow> nat" where
  "exit_status (Inr _) = 0"
| "exit_status (Inl _) = 1"

text \<open>
  The process as a whole. It is started with command-line arguments and an environment;
  the script reads neither (it has no reference to \<^verbatim>\<open>sys.argv\<close> or
  \<^verbatim>\<open>os.environ\<close>), so they do not occur on the right-hand side.
\<close>

definition process ::
  "string list \<Rightarrow> (string \<rightharpoonup> string) \<Rightarrow> ('e, 'f) library \<Rightarrow> ('e, 'f) world \<Rightarrow>
     nat \<times> ('e, 'f) world" where
  "process argv environ lib w = (case script lib w of (r, w') \<Rightarrow> (exit_status r, w'))"

subsection \<open>What a run is observed to do\<close>

text \<open>The events a run of \<^verbatim>\<open>run\<close>, or of the whole script, adds to the history.\<close>

definition run_events :: "('e, 'f) library \<Rightarrow> ('e, 'f) world \<Rightarrow> 'e event list" where
  "run_events lib w = drop (length (history w)) (history (snd (run lib w)))"

definition script_events :: "('e, 'f) library \<Rightarrow> ('e, 'f) world \<Rightarrow> 'e event list" where
  "script_events lib w = drop (length (history w)) (history (snd (script lib w)))"

definition returned :: "'e event \<Rightarrow> bool" where
  "returned ev = (snd ev = None)"

text \<open>The seven operations the specification lists for the runner, in its order: launch,
  open page, navigate, click, wait, screenshot, close.\<close>

definition seven_steps :: "call list" where
  "seven_steps =
     [Launch, New_page, Goto ''http://localhost:5173/'', Click ''button'',
      Wait_for_selector ''textarea:not(:empty)'',
      Screenshot ''jules-scratch/verification/verification.png'', Close]"

subsection \<open>A list-driven reading of the same code\<close>

text \<open>
  \<open>exec\<close> makes the calls of a list one after the other, stopping at the first that
  raises; \<open>run\<close> is shown below to be \<open>exec\<close> on \<open>seven_steps\<close>. \<open>trace\<close> computes the
  events of such a sequence from the library alone, and \<open>persist\<close> the files from the
  events. They carry the inductions; the statements about the script are about \<open>run\<close> and
  \<open>script\<close>.
\<close>

fun exec ::
  "('e, 'f) library \<Rightarrow> call list \<Rightarrow> ('e, 'f) world \<Rightarrow> ('e + unit) \<times> ('e, 'f) world" where
  "exec lib [] w = (Inr (), w)"
| "exec lib (c # cs) w = and_then (invoke lib c) (\<lambda>_. exec lib cs) w"

fun trace :: "('e, 'f) library \<Rightarrow> call list \<Rightarrow> 'e event list \<Rightarrow> 'e event list" where
  "trace lib [] h = []"
| "trace lib (c # cs) h =
     (c, outcome lib h c) #
     (case outcome lib h c of Some e \<Rightarrow> [] | None \<Rightarrow> trace lib cs (h @ [(c, None)]))"

fun persist ::
  "('e, 'f) library \<Rightarrow> 'e event list \<Rightarrow> 'e event list \<Rightarrow> (string \<rightharpoonup> 'f) \<Rightarrow> (string \<rightharpoonup> 'f)" where
  "persist lib h [] fs = fs"
| "persist lib h ((c, r) # evs) fs =
     persist lib (h @ [(c, r)]) evs
       (if r = None then files (effect lib c \<lparr>history = h, files = fs\<rparr>) else fs)"

subsection \<open>Concrete libraries\<close>

text \<open>
  The failures the specification names for the library (section 7), a library in which
  every call returns, libraries in which one call raises, and an empty world. Here a
  picture is stood for by a number, the number of events before it was taken.
\<close>

datatype error =
    LaunchError
  | PageCreationError
  | NavigationError
  | ElementNotFoundError
  | ElementNotInteractableError
  | TimeoutError
  | CaptureError

definition healthy :: "(error, nat) library" where
  "healthy = \<lparr>outcome = (\<lambda>h c. None), rendering = length\<rparr>"

definition failing :: "call \<Rightarrow> error \<Rightarrow> (error, nat) library" where
  "failing c e = \<lparr>outcome = (\<lambda>h c'. if c' = c then Some e else None), rendering = length\<rparr>"

definition fresh :: "(error, nat) world" where
  "fresh = \<lparr>history = [], files = Map.empty\<rparr>"

subsection \<open>The click operation and the page it acts on\<close>

text \<open>
  Modelled from the spec: the click operation of the library and the document it acts on,
  neither of which is under the repository's sources. Operation 4 of the specification
  reads "Locate the first interactive control matching a generic selector (here, any
  button element) and invoke a simulated user click on it. Fails with
  ElementNotFoundError if no matching element exists at the time of the call; fails with
  ElementNotInteractableError if the element is found but not clickable (hidden,
  disabled, obscured)." A document is the list of its elements, in document order; an
  element has a tag and is clickable or not; the selector of the script, \<^verbatim>\<open>button\<close>,
  selects the elements of that tag.
\<close>

record element =
  tag :: string
  clickable :: bool

definition matches :: "string \<Rightarrow> element \<Rightarrow> bool" where
  "matches selector el = (tag el = selector)"

definition click_result :: "element list \<Rightarrow> string \<Rightarrow> error option" where
  "click_result doc selector =
     (case filter (matches selector) doc of
        [] \<Rightarrow> Some ElementNotFoundError
      | el # _ \<Rightarrow> if clickable el then None else Some ElementNotInteractableError)"

text \<open>The history at the moment \<^verbatim>\<open>run\<close> calls the click: the context manager was
  entered and the three calls before the click returned.\<close>

definition click_time :: "('e, 'f) world \<Rightarrow> 'e event list" where
  "click_time w =
     history w @ [(Enter, None), (Launch, None), (New_page, None),
                  (Goto ''http://localhost:5173/'', None)]"

text \<open>A library in front of a page showing the document \<open>doc\<close>: the click does what
  the specification says of it, and every other call returns.\<close>

definition serving :: "element list \<Rightarrow> (error, nat) library" where
  "serving doc =
     \<lparr>outcome = (\<lambda>h c. case c of Click selector \<Rightarrow> click_result doc selector | _ \<Rightarrow> None),
      rendering = length\<rparr>"

section \<open>Properties of the model\<close>

subsection \<open>Single calls and sequences of calls\<close>

lemma history_effect: "history (effect lib c w) = history w"
  by (cases c) simp_all

lemma invoke_returns:
  "outcome lib (history w) c = None \<Longrightarrow>
     invoke lib c w = (Inr (), (effect lib c w)\<lparr>history := history w @ [(c, None)]\<rparr>)"
  by (simp add: invoke_def)

lemma invoke_raises:
  "outcome lib (history w) c = Some e \<Longrightarrow>
     invoke lib c w = (Inl e, w\<lparr>history := history w @ [(c, Some e)]\<rparr>)"
  by (simp add: invoke_def)

lemma exec_last: "exec lib [c] w = invoke lib c w"
  by (cases "outcome lib (history w) c") (simp_all add: and_then_def invoke_def)

lemma run_exec: "run lib w = exec lib seven_steps w"
proof -
  have "exec lib seven_steps w =
    and_then (invoke lib Launch) (\<lambda>_.
     and_then (invoke lib New_page) (\<lambda>_.
     and_then (invoke lib (Goto ''http://localhost:5173/'')) (\<lambda>_.
     and_then (invoke lib (Click ''button'')) (\<lambda>_.
     and_then (invoke lib (Wait_for_selector ''textarea:not(:empty)'')) (\<lambda>_.
     and_then (invoke lib (Screenshot ''jules-scratch/verification/verification.png'')) (\<lambda>_.
     exec lib [Close])))))) w"
    unfolding seven_steps_def exec.simps(2) ..
  also have "\<dots> = run lib w"
    unfolding run_def exec_last[abs_def] ..
  finally show ?thesis by simp
qed

lemma exec_history:
  "history (snd (exec lib cs w)) = history w @ trace lib cs (history w)"
proof (induction cs arbitrary: w)
  case Nil
  show ?case by simp
next
  case (Cons c cs)
  show ?case
  proof (cases "outcome lib (history w) c")
    case None
    then show ?thesis
      by (simp add: and_then_def invoke_returns Cons.IH history_effect)
  next
    case (Some e)
    then show ?thesis
      by (simp add: and_then_def invoke_raises)
  qed
qed

lemma world_eta: "\<lparr>history = history w, files = files w\<rparr> = (w :: ('e, 'f) world)"
  by (cases w) simp

lemma exec_files:
  "files (snd (exec lib cs w)) = persist lib (history w) (trace lib cs (history w)) (files w)"
proof (induction cs arbitrary: w)
  case Nil
  show ?case by simp
next
  case (Cons c cs)
  show ?case
  proof (cases "outcome lib (history w) c")
    case None
    then show ?thesis
      by (simp add: and_then_def invoke_returns Cons.IH history_effect world_eta)
  next
    case (Some e)
    then show ?thesis
      by (simp add: and_then_def invoke_raises)
  qed
qed

lemma exec_returns:
  "list_all returned (trace lib cs (history w)) \<Longrightarrow> fst (exec lib cs w) = Inr ()"
proof (induction cs arbitrary: w)
  case Nil
  show ?case by simp
next
  case (Cons c cs)
  from Cons.prems have ok: "outcome lib (history w) c = None"
    by (simp add: returned_def)
  with Cons.prems have "list_all returned (trace lib cs (history w @ [(c, None)]))"
    by simp
  with ok show ?case
    by (simp add: and_then_def invoke_returns Cons.IH history_effect)
qed

lemma exec_raises:
  "(c, Some e) \<in> set (trace lib cs (history w)) \<Longrightarrow> fst (exec lib cs w) = Inl e"
proof (induction cs arbitrary: w)
  case Nil
  then show ?case by simp
next
  case (Cons c' cs)
  show ?case
  proof (cases "outcome lib (history w) c'")
    case None
    with Cons.prems have "(c, Some e) \<in> set (trace lib cs (history w @ [(c', None)]))"
      by auto
    with None show ?thesis
      by (simp add: and_then_def invoke_returns Cons.IH history_effect)
  next
    case (Some e')
    with Cons.prems have "e' = e" by auto
    with Some show ?thesis
      by (simp add: and_then_def invoke_raises)
  qed
qed

lemma trace_calls_prefix: "prefix (map fst (trace lib cs h)) cs"
  by (induction cs arbitrary: h) (simp_all split: option.splits)

lemma trace_nonempty: "cs \<noteq> [] \<Longrightarrow> trace lib cs h \<noteq> []"
  by (cases cs) simp_all

lemma trace_butlast_returned: "list_all returned (butlast (trace lib cs h))"
  by (induction cs arbitrary: h) (simp_all add: returned_def split: option.splits)

lemma trace_all_returned:
  "list_all returned (trace lib cs h) \<Longrightarrow> trace lib cs h = map (\<lambda>c. (c, None)) cs"
  by (induction cs arbitrary: h) (auto simp: returned_def split: option.splits)

lemma trace_raised:
  "(c, Some e) \<in> set (trace lib cs h) \<Longrightarrow> distinct cs \<Longrightarrow>
     trace lib cs h = map (\<lambda>x. (x, None)) (takeWhile (\<lambda>x. x \<noteq> c) cs) @ [(c, Some e)]"
proof (induction cs arbitrary: h)
  case Nil
  then show ?case by simp
next
  case (Cons c' cs)
  show ?case
  proof (cases "outcome lib h c'")
    case None
    with Cons.prems have mem: "(c, Some e) \<in> set (trace lib cs (h @ [(c', None)]))"
      by auto
    have "prefix (map fst (trace lib cs (h @ [(c', None)]))) cs"
      by (rule trace_calls_prefix)
    then have "set (map fst (trace lib cs (h @ [(c', None)]))) \<subseteq> set cs"
      by (rule set_mono_prefix)
    with mem have "c \<in> set cs" by force
    with Cons.prems have "c' \<noteq> c" by auto
    with None mem Cons.prems show ?thesis
      by (simp add: Cons.IH)
  next
    case (Some e')
    with Cons.prems show ?thesis by auto
  qed
qed

lemma trace_dichotomy:
  "list_all returned evs \<or> (\<exists>c e. (c, Some e) \<in> set evs)"
proof (cases "list_all returned evs")
  case True
  then show ?thesis ..
next
  case False
  then obtain ev where mem: "ev \<in> set evs" and raised: "snd ev \<noteq> None"
    by (auto simp: list_all_iff returned_def)
  from raised obtain c e where "ev = (c, Some e)"
    by (cases ev) auto
  with mem show ?thesis by blast
qed

lemma run_events_trace: "run_events lib w = trace lib seven_steps (history w)"
  by (simp add: run_events_def run_exec exec_history)

lemma run_history: "history (snd (run lib w)) = history w @ run_events lib w"
  by (simp add: run_events_trace run_exec exec_history)

lemma run_files:
  "files (snd (run lib w)) = persist lib (history w) (run_events lib w) (files w)"
  by (simp add: run_events_trace run_exec exec_files)

lemma distinct_seven_steps: "distinct seven_steps"
  by (simp add: seven_steps_def)

lemma script_not_entered:
  assumes "outcome lib (history w) Enter = Some e"
  shows "script lib w = (Inl e, w\<lparr>history := history w @ [(Enter, Some e)]\<rparr>)"
  using assms by (simp add: script_def invoke_raises)

lemma script_entered:
  assumes "outcome lib (history w) Enter = None"
  shows "script lib w =
    (fst (run lib (w\<lparr>history := history w @ [(Enter, None)]\<rparr>)),
     leave (snd (run lib (w\<lparr>history := history w @ [(Enter, None)]\<rparr>))))"
  using assms by (simp add: script_def invoke_returns split: prod.splits)

lemma script_events_not_entered:
  assumes "outcome lib (history w) Enter = Some e"
  shows "script_events lib w = [(Enter, Some e)]"
  by (simp add: script_events_def script_not_entered[OF assms])

lemma script_events_entered:
  assumes "outcome lib (history w) Enter = None"
  shows "script_events lib w =
    (Enter, None) # run_events lib (w\<lparr>history := history w @ [(Enter, None)]\<rparr>) @ [(Exit, None)]"
  by (simp add: script_events_def script_entered[OF assms] leave_def run_history)

lemma script_files_entered:
  assumes "outcome lib (history w) Enter = None"
  shows "files (snd (script lib w)) = files (snd (run lib (w\<lparr>history := history w @ [(Enter, None)]\<rparr>)))"
  by (simp add: script_entered[OF assms] leave_def)

lemma entered_if_step:
  assumes "(c, r) \<in> set (script_events lib w)" and "c \<noteq> Enter"
  shows "outcome lib (history w) Enter = None"
proof (cases "outcome lib (history w) Enter")
  case None
  then show ?thesis .
next
  case (Some e)
  with assms show ?thesis
    by (simp add: script_events_not_entered)
qed

lemma run_calls_subset: "(c, r) \<in> set (run_events lib w) \<Longrightarrow> c \<in> set seven_steps"
proof -
  assume "(c, r) \<in> set (run_events lib w)"
  then have "c \<in> set (map fst (run_events lib w))" by force
  moreover have "set (map fst (run_events lib w)) \<subseteq> set seven_steps"
    unfolding run_events_trace by (rule set_mono_prefix) (rule trace_calls_prefix)
  ultimately show ?thesis by blast
qed

lemma trace_all_present:
  assumes "distinct cs" and "\<forall>c\<in>set cs. (c, None) \<in> set (trace lib cs h)"
  shows "list_all returned (trace lib cs h)"
proof (rule ccontr)
  assume "\<not> list_all returned (trace lib cs h)"
  with trace_dichotomy[of "trace lib cs h"] obtain c e
    where raised: "(c, Some e) \<in> set (trace lib cs h)" by blast
  then have shape: "trace lib cs h =
      map (\<lambda>x. (x, None)) (takeWhile (\<lambda>x. x \<noteq> c) cs) @ [(c, Some e)]"
    using assms(1) by (rule trace_raised)
  from raised have "c \<in> set (map fst (trace lib cs h))" by force
  moreover have "set (map fst (trace lib cs h)) \<subseteq> set cs"
    by (rule set_mono_prefix) (rule trace_calls_prefix)
  ultimately have "c \<in> set cs" by blast
  with assms(2) have "(c, None) \<in> set (trace lib cs h)" by blast
  then have "c \<in> set (takeWhile (\<lambda>x. x \<noteq> c) cs)"
    by (subst (asm) shape) auto
  then show False by (auto dest: set_takeWhileD)
qed

lemma script_raised_shape:
  assumes step: "c \<in> set seven_steps" and raised: "(c, Some e) \<in> set (script_events lib w)"
  shows "outcome lib (history w) Enter = None"
    and "run_events lib (w\<lparr>history := history w @ [(Enter, None)]\<rparr>) =
           map (\<lambda>x. (x, None)) (takeWhile (\<lambda>x. x \<noteq> c) seven_steps) @ [(c, Some e)]"
    and "fst (script lib w) = Inl e"
proof -
  from step have ne: "c \<noteq> Enter" "c \<noteq> Exit"
    by (auto simp: seven_steps_def)
  from raised ne(1) show entered: "outcome lib (history w) Enter = None"
    by (rule entered_if_step)
  let ?w1 = "w\<lparr>history := history w @ [(Enter, None)]\<rparr>"
  from raised ne have mem: "(c, Some e) \<in> set (trace lib seven_steps (history ?w1))"
    by (simp add: script_events_entered[OF entered] run_events_trace)
  then show "run_events lib ?w1 =
      map (\<lambda>x. (x, None)) (takeWhile (\<lambda>x. x \<noteq> c) seven_steps) @ [(c, Some e)]"
    unfolding run_events_trace using distinct_seven_steps by (rule trace_raised)
  from mem have "fst (exec lib seven_steps ?w1) = Inl e"
    by (rule exec_raises)
  then show "fst (script lib w) = Inl e"
    by (simp add: script_entered[OF entered] run_exec)
qed

lemma script_all_returned:
  assumes "\<forall>c\<in>set seven_steps. (c, None) \<in> set (script_events lib w)"
  shows "outcome lib (history w) Enter = None"
    and "run_events lib (w\<lparr>history := history w @ [(Enter, None)]\<rparr>) =
           map (\<lambda>c. (c, None)) seven_steps"
    and "fst (script lib w) = Inr ()"
proof -
  from assms have "(Launch, None) \<in> set (script_events lib w)"
    by (simp add: seven_steps_def)
  then show entered: "outcome lib (history w) Enter = None"
    by (rule entered_if_step) simp
  let ?w1 = "w\<lparr>history := history w @ [(Enter, None)]\<rparr>"
  have "\<forall>c\<in>set seven_steps. (c, None) \<in> set (trace lib seven_steps (history ?w1))"
  proof
    fix c assume c: "c \<in> set seven_steps"
    then have "c \<noteq> Enter" "c \<noteq> Exit" by (auto simp: seven_steps_def)
    moreover from assms c have "(c, None) \<in> set (script_events lib w)" by blast
    ultimately show "(c, None) \<in> set (trace lib seven_steps (history ?w1))"
      by (simp add: script_events_entered[OF entered] run_events_trace)
  qed
  with distinct_seven_steps have ok: "list_all returned (trace lib seven_steps (history ?w1))"
    by (rule trace_all_present)
  then show "run_events lib ?w1 = map (\<lambda>c. (c, None)) seven_steps"
    unfolding run_events_trace by (rule trace_all_returned)
  from ok have "fst (exec lib seven_steps ?w1) = Inr ()"
    by (rule exec_returns)
  then show "fst (script lib w) = Inr ()"
    by (simp add: script_entered[OF entered] run_exec)
qed

lemma script_events_eq:
  "script_events lib w =
     (Enter, outcome lib (history w) Enter) #
     (case outcome lib (history w) Enter of
        Some e \<Rightarrow> []
      | None \<Rightarrow> trace lib seven_steps (history w @ [(Enter, None)]) @ [(Exit, None)])"
  by (cases "outcome lib (history w) Enter")
    (simp_all add: script_events_entered script_events_not_entered run_events_trace)

lemma script_returns_all:
  assumes "fst (script lib w) = Inr ()"
  shows "\<forall>c\<in>set seven_steps. (c, None) \<in> set (script_events lib w)"
proof -
  have entered: "outcome lib (history w) Enter = None"
  proof (cases "outcome lib (history w) Enter")
    case (Some e)
    with assms show ?thesis by (simp add: script_not_entered)
  qed
  let ?w1 = "w\<lparr>history := history w @ [(Enter, None)]\<rparr>"
  from assms have res: "fst (exec lib seven_steps ?w1) = Inr ()"
    by (simp add: script_entered[OF entered] run_exec)
  have "list_all returned (trace lib seven_steps (history ?w1))"
  proof (rule ccontr)
    assume "\<not> list_all returned (trace lib seven_steps (history ?w1))"
    with trace_dichotomy[of "trace lib seven_steps (history ?w1)"] obtain c e
      where "(c, Some e) \<in> set (trace lib seven_steps (history ?w1))" by blast
    then have "fst (exec lib seven_steps ?w1) = Inl e" by (rule exec_raises)
    with res show False by simp
  qed
  then have "trace lib seven_steps (history ?w1) = map (\<lambda>c. (c, None)) seven_steps"
    by (rule trace_all_returned)
  then show ?thesis
    by (simp add: script_events_entered[OF entered] run_events_trace)
qed

lemma persist_frame:
  assumes "p \<noteq> q" and "\<forall>ev\<in>set evs. \<forall>x. fst ev = Screenshot x \<longrightarrow> x = q"
  shows "persist lib h evs fs p = fs p"
  using assms(2)
proof (induction evs arbitrary: h fs)
  case Nil
  show ?case by simp
next
  case (Cons ev evs)
  obtain c r where ev: "ev = (c, r)" by (cases ev)
  from Cons.prems have rest: "\<forall>ev\<in>set evs. \<forall>x. fst ev = Screenshot x \<longrightarrow> x = q"
    by simp
  have "files (effect lib c \<lparr>history = h, files = fs\<rparr>) p = fs p"
  proof (cases c)
    case (Screenshot x)
    with Cons.prems ev have "x = q" by simp
    with Screenshot assms(1) show ?thesis by simp
  qed simp_all
  then show ?case
    by (simp add: ev Cons.IH[OF rest])
qed

lemma run_frame:
  assumes "p \<noteq> ''jules-scratch/verification/verification.png''"
  shows "files (snd (run lib w)) p = files w p"
proof -
  have "\<forall>ev\<in>set (run_events lib w).
      \<forall>x. fst ev = Screenshot x \<longrightarrow> x = ''jules-scratch/verification/verification.png''"
  proof (intro ballI allI impI)
    fix ev x assume mem: "ev \<in> set (run_events lib w)" and shot: "fst ev = Screenshot x"
    from shot have "ev = (Screenshot x, snd ev)"
      by (cases ev) simp
    with mem have "(Screenshot x, snd ev) \<in> set (run_events lib w)"
      by simp
    then have "Screenshot x \<in> set seven_steps" by (rule run_calls_subset)
    then show "x = ''jules-scratch/verification/verification.png''"
      by (simp add: seven_steps_def)
  qed
  with assms show ?thesis
    unfolding run_files by (rule persist_frame)
qed

lemma script_frame:
  assumes "p \<noteq> ''jules-scratch/verification/verification.png''"
  shows "files (snd (script lib w)) p = files w p"
proof (cases "outcome lib (history w) Enter")
  case None
  then show ?thesis
    by (simp add: script_files_entered run_frame[OF assms])
next
  case (Some e)
  then show ?thesis by (simp add: script_not_entered)
qed

lemma script_success_files:
  assumes "fst (script lib w) = Inr ()"
  shows "files (snd (script lib w)) =
    (files w)(''jules-scratch/verification/verification.png'' \<mapsto>
       rendering lib (history w @ map (\<lambda>c. (c, None)) (Enter # take 5 seven_steps)))"
proof -
  note facts = script_all_returned[OF script_returns_all[OF assms]]
  show ?thesis
    by (simp add: script_files_entered[OF facts(1)] run_files facts(2)) (simp add: seven_steps_def)
qed

lemma close_iff:
  "(\<exists>r. (Close, r) \<in> set (run_events lib w)) =
     (\<forall>c\<in>set (butlast seven_steps). (c, None) \<in> set (run_events lib w))"
proof (cases "list_all returned (run_events lib w)")
  case True
  then have "run_events lib w = map (\<lambda>c. (c, None)) seven_steps"
    unfolding run_events_trace by (rule trace_all_returned)
  then show ?thesis by (simp add: seven_steps_def)
next
  case False
  with trace_dichotomy[of "run_events lib w"] obtain c e
    where raised: "(c, Some e) \<in> set (run_events lib w)" by blast
  then have shape: "run_events lib w =
      map (\<lambda>x. (x, None)) (takeWhile (\<lambda>x. x \<noteq> c) seven_steps) @ [(c, Some e)]"
    unfolding run_events_trace using distinct_seven_steps by (rule trace_raised)
  from raised have "c \<in> set seven_steps" by (rule run_calls_subset)
  then consider "c = Launch" | "c = New_page" | "c = Goto ''http://localhost:5173/''"
    | "c = Click ''button''" | "c = Wait_for_selector ''textarea:not(:empty)''"
    | "c = Screenshot ''jules-scratch/verification/verification.png''" | "c = Close"
    by (auto simp: seven_steps_def)
  then show ?thesis
  proof cases
    case 1 with shape show ?thesis by (auto simp: seven_steps_def)
  next
    case 2 with shape show ?thesis by (auto simp: seven_steps_def)
  next
    case 3 with shape show ?thesis by (auto simp: seven_steps_def)
  next
    case 4 with shape show ?thesis by (auto simp: seven_steps_def)
  next
    case 5 with shape show ?thesis by (auto simp: seven_steps_def)
  next
    case 6 with shape show ?thesis by (auto simp: seven_steps_def)
  next
    case 7 with shape show ?thesis by (auto simp: seven_steps_def)
  qed
qed

lemma script_history: "history (snd (script lib w)) = history w @ script_events lib w"
proof (cases "outcome lib (history w) Enter")
  case None
  then show ?thesis
    by (simp add: script_events_entered script_entered leave_def run_history)
next
  case (Some e)
  then show ?thesis
    by (simp add: script_events_not_entered script_not_entered)
qed

lemma healthy_events:
  "script_events healthy w = map (\<lambda>c. (c, None)) (Enter # seven_steps @ [Exit])"
  by (simp add: script_events_eq healthy_def seven_steps_def)

lemma healthy_result: "fst (script healthy w) = Inr ()"
  by (rule script_all_returned(3)) (simp add: healthy_events seven_steps_def)

subsection \<open>The click, and runs that answer alike\<close>

lemma click_failure_skips_wait:
  assumes "(Click ''button'', Some e) \<in> set (script_events lib w)"
  shows "fst (script lib w) = Inl e
    \<and> exit_status (fst (script lib w)) \<noteq> 0
    \<and> script_events lib w =
        [(Enter, None), (Launch, None), (New_page, None),
         (Goto ''http://localhost:5173/'', None), (Click ''button'', Some e), (Exit, None)]
    \<and> (\<forall>selector r. (Wait_for_selector selector, r) \<notin> set (script_events lib w))"
proof -
  have step: "Click ''button'' \<in> set seven_steps"
    by (simp add: seven_steps_def)
  note facts = script_raised_shape[OF step assms]
  have pre: "takeWhile (\<lambda>x. x \<noteq> Click ''button'') seven_steps =
      [Launch, New_page, Goto ''http://localhost:5173/'']"
    by (simp add: seven_steps_def)
  have shape: "script_events lib w =
      [(Enter, None), (Launch, None), (New_page, None),
       (Goto ''http://localhost:5173/'', None), (Click ''button'', Some e), (Exit, None)]"
    by (simp add: script_events_entered[OF facts(1)] facts(2) pre)
  have "\<forall>selector r. (Wait_for_selector selector, r) \<notin> set (script_events lib w)"
    by (simp add: shape)
  with shape facts(3) show ?thesis by simp
qed

lemma click_reached:
  assumes "(Goto ''http://localhost:5173/'', None) \<in> set (script_events lib w)"
  shows "(Click ''button'', outcome lib (click_time w) (Click ''button''))
           \<in> set (script_events lib w)"
proof -
  from assms have entered: "outcome lib (history w) Enter = None"
    by (rule entered_if_step) simp
  let ?h1 = "history w @ [(Enter, None)]"
  let ?h2 = "?h1 @ [(Launch, None)]"
  let ?h3 = "?h2 @ [(New_page, None)]"
  from assms have mem: "(Goto ''http://localhost:5173/'', None) \<in> set (trace lib seven_steps ?h1)"
    by (simp add: script_events_entered[OF entered] run_events_trace)
  have launch: "outcome lib ?h1 Launch = None"
  proof (cases "outcome lib ?h1 Launch")
    case (Some e)
    with mem show ?thesis by (simp add: seven_steps_def)
  qed
  have new_page: "outcome lib ?h2 New_page = None"
  proof (cases "outcome lib ?h2 New_page")
    case (Some e)
    with mem launch show ?thesis by (simp add: seven_steps_def)
  qed
  have goto: "outcome lib ?h3 (Goto ''http://localhost:5173/'') = None"
  proof (cases "outcome lib ?h3 (Goto ''http://localhost:5173/'')")
    case (Some e)
    with mem launch new_page show ?thesis by (simp add: seven_steps_def)
  qed
  have "(Click ''button'', outcome lib (click_time w) (Click ''button''))
      \<in> set (trace lib seven_steps ?h1)"
    using launch new_page goto by (simp add: seven_steps_def click_time_def)
  then show ?thesis
    by (simp add: script_events_entered[OF entered] run_events_trace)
qed

lemma click_result_no_match:
  assumes "list_all (\<lambda>el. \<not> matches selector el) doc"
  shows "click_result doc selector = Some ElementNotFoundError"
proof -
  from assms have "filter (matches selector) doc = []"
    by (simp add: list_all_iff filter_empty_conv)
  then show ?thesis by (simp add: click_result_def)
qed

lemma trace_outcome_cong:
  assumes "outcome lib' = outcome lib"
  shows "trace lib' cs h = trace lib cs h"
  by (induction cs arbitrary: h) (simp_all add: assms split: option.splits)

lemma script_raised_result:
  assumes "(c, Some e) \<in> set (script_events lib w)"
  shows "fst (script lib w) = Inl e"
proof (cases "outcome lib (history w) Enter")
  case (Some e')
  with assms show ?thesis
    by (simp add: script_events_not_entered script_not_entered)
next
  case None
  let ?w1 = "w\<lparr>history := history w @ [(Enter, None)]\<rparr>"
  from assms None have "(c, Some e) \<in> set (trace lib seven_steps (history ?w1))"
    by (simp add: script_events_entered run_events_trace)
  then have "fst (exec lib seven_steps ?w1) = Inl e"
    by (rule exec_raises)
  with None show ?thesis
    by (simp add: script_entered run_exec)
qed

lemma script_returned_result:
  assumes "list_all returned (script_events lib w)"
  shows "fst (script lib w) = Inr ()"
proof (cases "outcome lib (history w) Enter")
  case (Some e)
  with assms show ?thesis
    by (simp add: script_events_not_entered returned_def)
next
  case None
  let ?w1 = "w\<lparr>history := history w @ [(Enter, None)]\<rparr>"
  from assms None have "list_all returned (trace lib seven_steps (history ?w1))"
    by (simp add: script_events_entered run_events_trace)
  then have "fst (exec lib seven_steps ?w1) = Inr ()"
    by (rule exec_returns)
  with None show ?thesis
    by (simp add: script_entered run_exec)
qed

lemma script_result_by_events:
  assumes "script_events lib' w' = script_events lib w"
  shows "fst (script lib' w') = fst (script lib w)"
proof (cases "list_all returned (script_events lib w)")
  case True
  then have "fst (script lib w) = Inr ()"
    by (rule script_returned_result)
  moreover from True have "list_all returned (script_events lib' w')"
    by (simp only: assms)
  then have "fst (script lib' w') = Inr ()"
    by (rule script_returned_result)
  ultimately show ?thesis by simp
next
  case False
  with trace_dichotomy[of "script_events lib w"] obtain c e
    where raised: "(c, Some e) \<in> set (script_events lib w)" by blast
  then have "fst (script lib w) = Inl e"
    by (rule script_raised_result)
  moreover from raised have "(c, Some e) \<in> set (script_events lib' w')"
    by (simp only: assms)
  then have "fst (script lib' w') = Inl e"
    by (rule script_raised_result)
  ultimately show ?thesis by simp
qed

lemma script_events_cong:
  assumes "outcome lib' = outcome lib" and "history w' = history w"
  shows "script_events lib' w' = script_events lib w"
  unfolding script_events_eq trace_outcome_cong[OF assms(1)] assms ..

lemma process_eq:
  "process argv environ lib w = (exit_status (fst (script lib w)), snd (script lib w))"
  by (simp add: process_def split: prod.splits)

section \<open>The claims of the specification\<close>

subsection \<open>C2: the seven operations, in order\<close>

text \<open>
  C2. \<^verbatim>\<open>run\<close> executes the seven operations launch, open page, navigate, click,
  wait, screenshot, close in that fixed order, each one started only after its
  predecessor returned. For every library and world: the calls \<^verbatim>\<open>run\<close> makes are an
  initial segment of \<open>seven_steps\<close> (nothing skipped, nothing reordered, nothing added)
  and at least the first is made; every call but the last one made has returned (a step
  starts only when all before it completed); when no call raises, the events are exactly
  the seven steps, each returned; and \<^verbatim>\<open>run\<close> returns normally exactly then.
\<close>

theorem run_steps_in_order:
  "prefix (map fst (run_events lib w)) seven_steps
   \<and> run_events lib w \<noteq> []
   \<and> list_all returned (butlast (run_events lib w))
   \<and> (list_all returned (run_events lib w) \<longrightarrow>
        run_events lib w = map (\<lambda>c. (c, None)) seven_steps)
   \<and> (fst (run lib w) = Inr ()) = list_all returned (run_events lib w)"
proof -
  have "prefix (map fst (run_events lib w)) seven_steps"
    unfolding run_events_trace by (rule trace_calls_prefix)
  moreover have "run_events lib w \<noteq> []"
    unfolding run_events_trace by (rule trace_nonempty) (simp add: seven_steps_def)
  moreover have "list_all returned (butlast (run_events lib w))"
    unfolding run_events_trace by (rule trace_butlast_returned)
  moreover have "list_all returned (run_events lib w) \<longrightarrow>
      run_events lib w = map (\<lambda>c. (c, None)) seven_steps"
    unfolding run_events_trace by (simp add: trace_all_returned)
  moreover have "(fst (run lib w) = Inr ()) = list_all returned (run_events lib w)"
  proof
    assume res: "fst (run lib w) = Inr ()"
    show "list_all returned (run_events lib w)"
    proof (rule ccontr)
      assume "\<not> list_all returned (run_events lib w)"
      with trace_dichotomy[of "run_events lib w"] obtain c e
        where "(c, Some e) \<in> set (trace lib seven_steps (history w))"
        unfolding run_events_trace by blast
      then have "fst (exec lib seven_steps w) = Inl e" by (rule exec_raises)
      with res show False by (simp add: run_exec)
    qed
  next
    assume "list_all returned (run_events lib w)"
    then show "fst (run lib w) = Inr ()"
      unfolding run_events_trace run_exec by (rule exec_returns)
  qed
  ultimately show ?thesis by blast
qed

theorem run_steps_in_order_witness:
  "list_all returned (run_events healthy fresh)
   \<and> run_events healthy fresh = map (\<lambda>c. (c, None)) seven_steps
   \<and> fst (run healthy fresh) = Inr ()"
proof -
  have ok: "list_all returned (run_events healthy fresh)"
    by (simp add: run_events_trace healthy_def fresh_def seven_steps_def returned_def)
  with run_steps_in_order[of healthy fresh] show ?thesis by simp
qed

subsection \<open>C3: the successful run\<close>

text \<open>
  C3. In a run in which all seven steps succeed, the script writes the screenshot file at
  the fixed path and the process exits with status 0. The hypothesis says that each of
  the seven steps occurs in the events of the script as a call that returned. The file
  then holds the picture rendered after the five calls before the screenshot, and the
  events are the entry of the context manager, the seven steps and its exit.
\<close>

theorem healthy_run_writes_screenshot:
  assumes "\<forall>c\<in>set seven_steps. (c, None) \<in> set (script_events lib w)"
  shows "exit_status (fst (script lib w)) = 0
    \<and> files (snd (script lib w)) ''jules-scratch/verification/verification.png'' =
        Some (rendering lib (history w @ map (\<lambda>c. (c, None)) (Enter # take 5 seven_steps)))
    \<and> script_events lib w = map (\<lambda>c. (c, None)) (Enter # seven_steps @ [Exit])"
proof -
  note facts = script_all_returned[OF assms]
  have "exit_status (fst (script lib w)) = 0"
    by (simp add: facts(3))
  moreover have "files (snd (script lib w)) ''jules-scratch/verification/verification.png'' =
      Some (rendering lib (history w @ map (\<lambda>c. (c, None)) (Enter # take 5 seven_steps)))"
    by (simp add: script_files_entered[OF facts(1)] run_files facts(2)) (simp add: seven_steps_def)
  moreover have "script_events lib w = map (\<lambda>c. (c, None)) (Enter # seven_steps @ [Exit])"
    by (simp add: script_events_entered[OF facts(1)] facts(2))
  ultimately show ?thesis by simp
qed

theorem healthy_run_writes_screenshot_witness:
  "list_all (\<lambda>c. (c, None) \<in> set (script_events healthy fresh)) seven_steps
   \<and> exit_status (fst (script healthy fresh)) = 0
   \<and> files (snd (script healthy fresh)) ''jules-scratch/verification/verification.png'' = Some 6"
proof -
  have ok: "\<forall>c\<in>set seven_steps. (c, None) \<in> set (script_events healthy fresh)"
    by (simp add: script_events_eq healthy_def fresh_def seven_steps_def)
  have "rendering healthy (history fresh @ map (\<lambda>c. (c, None)) (Enter # take 5 seven_steps)) = 6"
    by (simp add: healthy_def fresh_def seven_steps_def)
  with healthy_run_writes_screenshot[OF ok] ok show ?thesis by (simp add: list_all_iff)
qed

subsection \<open>C4: a failing step ends the script\<close>

text \<open>
  C4. When one of the seven steps raises an error \<open>e\<close>, the error is neither recovered
  nor retried: the script ends with \<open>e\<close> uncaught, the exit status is not 0, the events are
  the steps before the failing one (each returned), the failing call and the exit of the
  context manager and nothing else, and no call occurs twice.
\<close>

theorem failing_step_ends_script:
  assumes "c \<in> set seven_steps" and "(c, Some e) \<in> set (script_events lib w)"
  shows "fst (script lib w) = Inl e
    \<and> exit_status (fst (script lib w)) \<noteq> 0
    \<and> script_events lib w =
        (Enter, None) # map (\<lambda>x. (x, None)) (takeWhile (\<lambda>x. x \<noteq> c) seven_steps) @
        [(c, Some e), (Exit, None)]
    \<and> distinct (map fst (script_events lib w))"
proof -
  note facts = script_raised_shape[OF assms]
  have shape: "script_events lib w =
      (Enter, None) # map (\<lambda>x. (x, None)) (takeWhile (\<lambda>x. x \<noteq> c) seven_steps) @
      [(c, Some e), (Exit, None)]"
    by (simp add: script_events_entered[OF facts(1)] facts(2))
  have calls: "map fst (script_events lib w) =
      Enter # takeWhile (\<lambda>x. x \<noteq> c) seven_steps @ [c, Exit]"
    by (simp add: shape comp_def)
  have sub: "set (takeWhile (\<lambda>x. x \<noteq> c) seven_steps) \<subseteq> set seven_steps"
    by (auto dest: set_takeWhileD)
  have "Enter \<notin> set seven_steps" "Exit \<notin> set seven_steps"
    by (simp_all add: seven_steps_def)
  with sub have out: "Enter \<notin> set (takeWhile (\<lambda>x. x \<noteq> c) seven_steps)"
      "Exit \<notin> set (takeWhile (\<lambda>x. x \<noteq> c) seven_steps)"
    by blast+
  have notin: "c \<notin> set (takeWhile (\<lambda>x. x \<noteq> c) seven_steps)"
    by (auto dest: set_takeWhileD)
  from assms(1) have ne: "c \<noteq> Enter" "c \<noteq> Exit"
    by (auto simp: seven_steps_def)
  have "distinct (takeWhile (\<lambda>x. x \<noteq> c) seven_steps)"
    by (rule distinct_takeWhile) (rule distinct_seven_steps)
  with out notin ne have "distinct (map fst (script_events lib w))"
    by (simp add: calls)
  with shape facts(3) show ?thesis by simp
qed

theorem failing_step_ends_script_witness:
  "Launch \<in> set seven_steps
   \<and> (Launch, Some LaunchError) \<in> set (script_events (failing Launch LaunchError) fresh)
   \<and> fst (script (failing Launch LaunchError) fresh) = Inl LaunchError
   \<and> exit_status (fst (script (failing Launch LaunchError) fresh)) \<noteq> 0
   \<and> script_events (failing Launch LaunchError) fresh =
       [(Enter, None), (Launch, Some LaunchError), (Exit, None)]"
proof -
  have step: "Launch \<in> set seven_steps"
    by (simp add: seven_steps_def)
  have raised: "(Launch, Some LaunchError) \<in> set (script_events (failing Launch LaunchError) fresh)"
    by (simp add: script_events_eq failing_def fresh_def seven_steps_def)
  have "takeWhile (\<lambda>x. x \<noteq> Launch) seven_steps = []"
    by (simp add: seven_steps_def)
  with failing_step_ends_script[OF step raised] step raised show ?thesis by simp
qed

subsection \<open>C5: no button, no wait\<close>

text \<open>
  C5. If, when \<^verbatim>\<open>run\<close> calls the click (the navigation has returned), the page
  contains no element matching the selector \<^verbatim>\<open>button\<close>, the script fails with the
  element-not-found error, exits non-zero, and the wait is never invoked: no event of the
  run is a \<^verbatim>\<open>wait_for_selector\<close> call, whatever its selector and outcome. Here \<open>doc\<close>
  is the document of the page at the click, and the second hypothesis says that the
  library's click does on it what the specification's operation 4 says.
\<close>

theorem missing_button_never_reaches_wait:
  assumes reached: "(Goto ''http://localhost:5173/'', None) \<in> set (script_events lib w)"
    and as_specified:
      "outcome lib (click_time w) (Click ''button'') = click_result doc ''button''"
    and no_button: "list_all (\<lambda>el. \<not> matches ''button'' el) doc"
  shows "fst (script lib w) = Inl ElementNotFoundError
    \<and> exit_status (fst (script lib w)) \<noteq> 0
    \<and> script_events lib w =
        [(Enter, None), (Launch, None), (New_page, None),
         (Goto ''http://localhost:5173/'', None),
         (Click ''button'', Some ElementNotFoundError), (Exit, None)]
    \<and> (\<forall>selector r. (Wait_for_selector selector, r) \<notin> set (script_events lib w))"
proof -
  from no_button have "click_result doc ''button'' = Some ElementNotFoundError"
    by (rule click_result_no_match)
  with as_specified click_reached[OF reached]
  have "(Click ''button'', Some ElementNotFoundError) \<in> set (script_events lib w)"
    by simp
  then show ?thesis by (rule click_failure_skips_wait)
qed

theorem missing_button_never_reaches_wait_witness:
  "(Goto ''http://localhost:5173/'', None)
     \<in> set (script_events (serving [\<lparr>tag = ''textarea'', clickable = True\<rparr>]) fresh)
   \<and> outcome (serving [\<lparr>tag = ''textarea'', clickable = True\<rparr>]) (click_time fresh) (Click ''button'') =
       click_result [\<lparr>tag = ''textarea'', clickable = True\<rparr>] ''button''
   \<and> list_all (\<lambda>el. \<not> matches ''button'' el) [\<lparr>tag = ''textarea'', clickable = True\<rparr>]
   \<and> fst (script (serving [\<lparr>tag = ''textarea'', clickable = True\<rparr>]) fresh) = Inl ElementNotFoundError
   \<and> exit_status (fst (script (serving [\<lparr>tag = ''textarea'', clickable = True\<rparr>]) fresh)) \<noteq> 0
   \<and> (Wait_for_selector ''textarea:not(:empty)'', None)
       \<notin> set (script_events (serving [\<lparr>tag = ''textarea'', clickable = True\<rparr>]) fresh)"
proof -
  let ?doc = "[\<lparr>tag = ''textarea'', clickable = True\<rparr>]"
  have reached: "(Goto ''http://localhost:5173/'', None) \<in> set (script_events (serving ?doc) fresh)"
    by (simp add: script_events_eq serving_def fresh_def seven_steps_def)
  have as_specified: "outcome (serving ?doc) (click_time fresh) (Click ''button'') =
      click_result ?doc ''button''"
    by (simp add: serving_def)
  have no_button: "list_all (\<lambda>el. \<not> matches ''button'' el) ?doc"
    by (simp add: matches_def)
  from missing_button_never_reaches_wait[OF reached as_specified no_button] reached as_specified no_button
  show ?thesis by simp
qed

subsection \<open>C6: a timed-out wait takes no screenshot\<close>

text \<open>
  C6. When the wait for \<^verbatim>\<open>textarea:not(:empty)\<close> raises (the library's timeout, or
  any other error \<open>e\<close>), the script fails with that error, exits non-zero, makes no
  screenshot call at all, and leaves every file as it was.
\<close>

theorem wait_timeout_takes_no_screenshot:
  assumes "(Wait_for_selector ''textarea:not(:empty)'', Some e) \<in> set (script_events lib w)"
  shows "fst (script lib w) = Inl e
    \<and> exit_status (fst (script lib w)) \<noteq> 0
    \<and> script_events lib w =
        [(Enter, None), (Launch, None), (New_page, None),
         (Goto ''http://localhost:5173/'', None), (Click ''button'', None),
         (Wait_for_selector ''textarea:not(:empty)'', Some e), (Exit, None)]
    \<and> (\<forall>path r. (Screenshot path, r) \<notin> set (script_events lib w))
    \<and> files (snd (script lib w)) = files w"
proof -
  have step: "Wait_for_selector ''textarea:not(:empty)'' \<in> set seven_steps"
    by (simp add: seven_steps_def)
  note facts = script_raised_shape[OF step assms]
  have pre: "takeWhile (\<lambda>x. x \<noteq> Wait_for_selector ''textarea:not(:empty)'') seven_steps =
      [Launch, New_page, Goto ''http://localhost:5173/'', Click ''button'']"
    by (simp add: seven_steps_def)
  have shape: "script_events lib w =
      [(Enter, None), (Launch, None), (New_page, None),
       (Goto ''http://localhost:5173/'', None), (Click ''button'', None),
       (Wait_for_selector ''textarea:not(:empty)'', Some e), (Exit, None)]"
    by (simp add: script_events_entered[OF facts(1)] facts(2) pre)
  have "\<forall>path r. (Screenshot path, r) \<notin> set (script_events lib w)"
    by (simp add: shape)
  moreover have "files (snd (script lib w)) = files w"
    by (simp add: script_files_entered[OF facts(1)] run_files facts(2) pre)
  ultimately show ?thesis using shape facts(3) by simp
qed

theorem wait_timeout_takes_no_screenshot_witness:
  "(Wait_for_selector ''textarea:not(:empty)'', Some TimeoutError)
     \<in> set (script_events (failing (Wait_for_selector ''textarea:not(:empty)'') TimeoutError) fresh)
   \<and> fst (script (failing (Wait_for_selector ''textarea:not(:empty)'') TimeoutError) fresh) =
       Inl TimeoutError
   \<and> exit_status (fst (script (failing (Wait_for_selector ''textarea:not(:empty)'') TimeoutError) fresh)) \<noteq> 0
   \<and> files (snd (script (failing (Wait_for_selector ''textarea:not(:empty)'') TimeoutError) fresh)) =
       Map.empty"
proof -
  have raised: "(Wait_for_selector ''textarea:not(:empty)'', Some TimeoutError)
      \<in> set (script_events (failing (Wait_for_selector ''textarea:not(:empty)'') TimeoutError) fresh)"
    by (simp add: script_events_eq failing_def fresh_def seven_steps_def)
  have "files fresh = Map.empty" by (simp add: fresh_def)
  with wait_timeout_takes_no_screenshot[OF raised] raised show ?thesis by simp
qed

subsection \<open>C7: the screenshot is the only file written\<close>

text \<open>
  C7. The screenshot at the fixed relative path is the only file the script writes. In
  every run, whatever the library does, every other path holds afterwards what it held
  before. Two successful runs in succession write the same path: the set of files after
  the second run is the set after the first, which is the initial set with the fixed path
  added, and that path holds the picture of the second run.
\<close>

theorem screenshot_is_only_file_written:
  "(\<forall>p. p \<noteq> ''jules-scratch/verification/verification.png'' \<longrightarrow>
        files (snd (script lib1 w)) p = files w p)
   \<and> (fst (script lib1 w) = Inr () \<and> fst (script lib2 (snd (script lib1 w))) = Inr () \<longrightarrow>
        dom (files (snd (script lib1 w))) =
          insert ''jules-scratch/verification/verification.png'' (dom (files w))
      \<and> dom (files (snd (script lib2 (snd (script lib1 w))))) = dom (files (snd (script lib1 w)))
      \<and> files (snd (script lib2 (snd (script lib1 w)))) =
          (files w)(''jules-scratch/verification/verification.png'' \<mapsto>
            rendering lib2 (history (snd (script lib1 w)) @
              map (\<lambda>c. (c, None)) (Enter # take 5 seven_steps))))"
proof (intro conjI allI impI)
  fix p assume "p \<noteq> ''jules-scratch/verification/verification.png''"
  then show "files (snd (script lib1 w)) p = files w p" by (rule script_frame)
next
  assume ok: "fst (script lib1 w) = Inr () \<and> fst (script lib2 (snd (script lib1 w))) = Inr ()"
  then have one: "files (snd (script lib1 w)) =
      (files w)(''jules-scratch/verification/verification.png'' \<mapsto>
        rendering lib1 (history w @ map (\<lambda>c. (c, None)) (Enter # take 5 seven_steps)))"
    by (simp add: script_success_files)
  from ok have two: "files (snd (script lib2 (snd (script lib1 w)))) =
      (files (snd (script lib1 w)))(''jules-scratch/verification/verification.png'' \<mapsto>
        rendering lib2 (history (snd (script lib1 w)) @
          map (\<lambda>c. (c, None)) (Enter # take 5 seven_steps)))"
    by (simp add: script_success_files)
  show "dom (files (snd (script lib1 w))) =
      insert ''jules-scratch/verification/verification.png'' (dom (files w))"
    by (subst one) simp
  show "dom (files (snd (script lib2 (snd (script lib1 w))))) = dom (files (snd (script lib1 w)))"
    by (subst two, subst one, subst one) simp
  show "files (snd (script lib2 (snd (script lib1 w)))) =
      (files w)(''jules-scratch/verification/verification.png'' \<mapsto>
        rendering lib2 (history (snd (script lib1 w)) @
          map (\<lambda>c. (c, None)) (Enter # take 5 seven_steps)))"
    by (subst two, subst one) simp
qed

theorem screenshot_is_only_file_written_witness:
  "fst (script healthy fresh) = Inr ()
   \<and> fst (script healthy (snd (script healthy fresh))) = Inr ()
   \<and> files (snd (script healthy fresh)) ''notes.txt'' = files fresh ''notes.txt''
   \<and> dom (files (snd (script healthy fresh))) = {''jules-scratch/verification/verification.png''}
   \<and> dom (files (snd (script healthy (snd (script healthy fresh))))) =
       {''jules-scratch/verification/verification.png''}
   \<and> files (snd (script healthy (snd (script healthy fresh)))) =
       [''jules-scratch/verification/verification.png'' \<mapsto> 15]"
proof -
  have ok: "fst (script healthy fresh) = Inr ()
      \<and> fst (script healthy (snd (script healthy fresh))) = Inr ()"
    by (simp add: healthy_result)
  have other: "''notes.txt'' \<noteq> ''jules-scratch/verification/verification.png''"
    by simp
  have img: "rendering healthy (history (snd (script healthy fresh)) @
      map (\<lambda>c. (c, None)) (Enter # take 5 seven_steps)) = 15"
    by (simp add: script_history healthy_events) (simp add: healthy_def fresh_def seven_steps_def)
  have "dom (files fresh) = {}" "files fresh = Map.empty"
    by (simp_all add: fresh_def)
  with screenshot_is_only_file_written[of healthy fresh healthy] ok other img show ?thesis
    by simp
qed

subsection \<open>C9: no input\<close>

text \<open>
  C9, as amended. The script takes no input: the URL, the click selector, the wait
  selector and the screenshot path are literals of the source. The result of the process
  is that of the script, whatever the command-line arguments and the environment are.
  The calls of \<^verbatim>\<open>run\<close> are, for every library and world, a non-empty initial segment
  of one list of calls carrying the four literals, and the whole list when no call
  raises. Any two runs agree call by call and argument by argument as far as both go
  (one sequence is an initial segment of the other). And two runs in which the library
  answers alike, started after the same history, make the same events and end with the
  same exit status, whatever their arguments, their environments and the files they
  find. The sequences of two runs are not identical in general: a run stops at the first
  call that raises.
\<close>

theorem calls_and_arguments_fixed:
  "process argv environ lib w = (exit_status (fst (script lib w)), snd (script lib w))
   \<and> run_events lib w \<noteq> []
   \<and> prefix (map fst (run_events lib w))
        [Launch, New_page, Goto ''http://localhost:5173/'', Click ''button'',
         Wait_for_selector ''textarea:not(:empty)'',
         Screenshot ''jules-scratch/verification/verification.png'', Close]
   \<and> (list_all returned (run_events lib w) \<longrightarrow>
        map fst (run_events lib w) =
          [Launch, New_page, Goto ''http://localhost:5173/'', Click ''button'',
           Wait_for_selector ''textarea:not(:empty)'',
           Screenshot ''jules-scratch/verification/verification.png'', Close])
   \<and> (prefix (map fst (run_events lib w)) (map fst (run_events lib' w'))
        \<or> prefix (map fst (run_events lib' w')) (map fst (run_events lib w)))
   \<and> (outcome lib' = outcome lib \<and> history w' = history w \<longrightarrow>
        script_events lib' w' = script_events lib w
        \<and> fst (process argv' environ' lib' w') = fst (process argv environ lib w))"
proof -
  have one: "prefix (map fst (run_events lib w)) seven_steps"
    unfolding run_events_trace by (rule trace_calls_prefix)
  have two: "prefix (map fst (run_events lib' w')) seven_steps"
    unfolding run_events_trace by (rule trace_calls_prefix)
  have proc: "process argv environ lib w = (exit_status (fst (script lib w)), snd (script lib w))"
    by (rule process_eq)
  have made: "run_events lib w \<noteq> []"
    unfolding run_events_trace by (rule trace_nonempty) (simp add: seven_steps_def)
  have full: "list_all returned (run_events lib w) \<longrightarrow> map fst (run_events lib w) = seven_steps"
    unfolding run_events_trace by (simp add: trace_all_returned comp_def)
  from one two have agree: "prefix (map fst (run_events lib w)) (map fst (run_events lib' w'))
      \<or> prefix (map fst (run_events lib' w')) (map fst (run_events lib w))"
    by (rule prefix_same_cases)
  have same: "script_events lib' w' = script_events lib w
      \<and> fst (process argv' environ' lib' w') = fst (process argv environ lib w)"
    if "outcome lib' = outcome lib \<and> history w' = history w"
  proof -
    from that have "outcome lib' = outcome lib" and "history w' = history w"
      by blast+
    then have ev: "script_events lib' w' = script_events lib w"
      by (rule script_events_cong)
    then have "fst (script lib' w') = fst (script lib w)"
      by (rule script_result_by_events)
    then have "fst (process argv' environ' lib' w') = fst (process argv environ lib w)"
      by (simp add: process_eq)
    with ev show ?thesis ..
  qed
  note one' = one[unfolded seven_steps_def] and full' = full[unfolded seven_steps_def]
  from same have same': "outcome lib' = outcome lib \<and> history w' = history w \<longrightarrow>
      script_events lib' w' = script_events lib w
      \<and> fst (process argv' environ' lib' w') = fst (process argv environ lib w)"
    by (rule impI)
  show ?thesis
    by (rule conjI[OF proc conjI[OF made conjI[OF one' conjI[OF full' conjI[OF agree same']]]]])
qed

theorem calls_and_arguments_fixed_witness:
  "list_all returned (run_events healthy fresh)
   \<and> map fst (run_events healthy fresh) = seven_steps
   \<and> outcome healthy = outcome healthy
   \<and> history (fresh\<lparr>files := [''notes.txt'' \<mapsto> 1]\<rparr>) = history fresh
   \<and> script_events healthy (fresh\<lparr>files := [''notes.txt'' \<mapsto> 1]\<rparr>) = script_events healthy fresh
   \<and> fst (process [''--url'', ''http://example.org/''] [''TARGET'' \<mapsto> ''staging''] healthy
            (fresh\<lparr>files := [''notes.txt'' \<mapsto> 1]\<rparr>)) =
       fst (process [] Map.empty healthy fresh)
   \<and> process [] Map.empty healthy fresh =
       (exit_status (fst (script healthy fresh)), snd (script healthy fresh))"
proof -
  have ok: "list_all returned (run_events healthy fresh)"
    by (simp add: run_events_trace healthy_def fresh_def seven_steps_def returned_def)
  have alike: "outcome healthy = outcome healthy
      \<and> history (fresh\<lparr>files := [''notes.txt'' \<mapsto> 1]\<rparr>) = history fresh"
    by simp
  from calls_and_arguments_fixed[of "[]" Map.empty healthy fresh healthy "fresh\<lparr>files := [''notes.txt'' \<mapsto> 1]\<rparr>"
      "[''--url'', ''http://example.org/'']" "[''TARGET'' \<mapsto> ''staging'']"] ok alike
  show ?thesis by (simp add: seven_steps_def)
qed

text \<open>
  The two runs that refute C9 as stated: against a healthy target \<^verbatim>\<open>run\<close> makes all
  seven calls; against an unreachable one it stops after the navigation.
\<close>

theorem call_sequences_differ_with_failure_point:
  "map fst (run_events healthy fresh) =
     [Launch, New_page, Goto ''http://localhost:5173/'', Click ''button'',
      Wait_for_selector ''textarea:not(:empty)'',
      Screenshot ''jules-scratch/verification/verification.png'', Close]
   \<and> map fst (run_events (failing (Goto ''http://localhost:5173/'') NavigationError) fresh) =
     [Launch, New_page, Goto ''http://localhost:5173/'']
   \<and> map fst (run_events healthy fresh)
       \<noteq> map fst (run_events (failing (Goto ''http://localhost:5173/'') NavigationError) fresh)"
  by (simp add: run_events_trace healthy_def failing_def fresh_def seven_steps_def)

subsection \<open>C10: close is called only after the six calls before it returned\<close>

text \<open>
  C10. The \<^verbatim>\<open>browser.close()\<close> of \<^verbatim>\<open>run\<close> is executed if and only if every
  call before it (launch, open page, navigate, click, wait, screenshot) returned; and
  when one of those raises, the script never calls close: the last thing it does is the
  exit of the library's context manager.
\<close>

theorem close_iff_earlier_steps_returned:
  "((\<exists>r. (Close, r) \<in> set (run_events lib w)) =
      (\<forall>c\<in>set (butlast seven_steps). (c, None) \<in> set (run_events lib w)))
   \<and> (c \<in> set (butlast seven_steps) \<and> (c, Some e) \<in> set (script_events lib w) \<longrightarrow>
        (\<forall>r. (Close, r) \<notin> set (script_events lib w))
        \<and> last (script_events lib w) = (Exit, None))"
proof (intro conjI impI)
  show "(\<exists>r. (Close, r) \<in> set (run_events lib w)) =
      (\<forall>c\<in>set (butlast seven_steps). (c, None) \<in> set (run_events lib w))"
    by (rule close_iff)
next
  assume fail: "c \<in> set (butlast seven_steps) \<and> (c, Some e) \<in> set (script_events lib w)"
  then have step: "c \<in> set seven_steps"
    by (auto dest: in_set_butlastD)
  from fail have raised: "(c, Some e) \<in> set (script_events lib w)" ..
  note facts = script_raised_shape[OF step raised]
  have shape: "script_events lib w =
      (Enter, None) # map (\<lambda>x. (x, None)) (takeWhile (\<lambda>x. x \<noteq> c) seven_steps) @
      [(c, Some e), (Exit, None)]"
    by (simp add: script_events_entered[OF facts(1)] facts(2))
  from fail have "c \<noteq> Close"
    by (auto simp: seven_steps_def)
  moreover have "Close \<notin> set (takeWhile (\<lambda>x. x \<noteq> c) seven_steps)"
    using fail by (auto simp: seven_steps_def)
  ultimately show "\<forall>r. (Close, r) \<notin> set (script_events lib w)"
    by (auto simp: shape)
  show "last (script_events lib w) = (Exit, None)"
    by (simp add: shape)
qed

theorem close_iff_earlier_steps_returned_witness:
  "Click ''button'' \<in> set (butlast seven_steps)
   \<and> (Click ''button'', Some ElementNotInteractableError)
       \<in> set (script_events (failing (Click ''button'') ElementNotInteractableError) fresh)
   \<and> (Close, None) \<notin> set (script_events (failing (Click ''button'') ElementNotInteractableError) fresh)
   \<and> last (script_events (failing (Click ''button'') ElementNotInteractableError) fresh) =
       (Exit, None)"
proof -
  have hyp: "Click ''button'' \<in> set (butlast seven_steps)
      \<and> (Click ''button'', Some ElementNotInteractableError)
          \<in> set (script_events (failing (Click ''button'') ElementNotInteractableError) fresh)"
    by (simp add: script_events_eq failing_def fresh_def seven_steps_def)
  with close_iff_earlier_steps_returned[of "failing (Click ''button'') ElementNotInteractableError" fresh "Click ''button''"
      ElementNotInteractableError]
  show ?thesis by simp
qed

subsection \<open>C1: what is released on a failure path\<close>

text \<open>
  C1, as amended. The claim that closing the browser session is performed on every
  failure path does not hold of \<^verbatim>\<open>browser.close()\<close>, which \<^verbatim>\<open>run\<close> calls only
  after the six calls before it returned. What is performed on every path, once the
  context manager has been entered, is the exit of that context manager: it is the last
  event of every run, it happens exactly once, also when a step of \<^verbatim>\<open>run\<close> raised;
  and a run that calls close is one in which the six earlier steps all returned.
\<close>

theorem context_exit_on_every_path:
  assumes "outcome lib (history w) Enter = None"
  shows "last (script_events lib w) = (Exit, None)
    \<and> count_list (map fst (script_events lib w)) Exit = 1
    \<and> ((\<exists>r. (Close, r) \<in> set (script_events lib w)) \<longrightarrow>
         (\<forall>c\<in>set (butlast seven_steps). (c, None) \<in> set (script_events lib w)))"
proof -
  let ?w1 = "w\<lparr>history := history w @ [(Enter, None)]\<rparr>"
  have shape: "script_events lib w = (Enter, None) # run_events lib ?w1 @ [(Exit, None)]"
    using assms by (rule script_events_entered)
  have "Exit \<notin> set (map fst (run_events lib ?w1))"
  proof
    assume "Exit \<in> set (map fst (run_events lib ?w1))"
    then obtain r where "(Exit, r) \<in> set (run_events lib ?w1)" by auto
    then have "Exit \<in> set seven_steps" by (rule run_calls_subset)
    then show False by (simp add: seven_steps_def)
  qed
  then have "count_list (map fst (run_events lib ?w1)) Exit = 0"
    by (simp only: count_list_0_iff not_False_eq_True)
  then have once: "count_list (map fst (script_events lib w)) Exit = 1"
    by (simp add: shape)
  have "\<forall>c\<in>set (butlast seven_steps). (c, None) \<in> set (script_events lib w)"
    if "\<exists>r. (Close, r) \<in> set (script_events lib w)"
  proof -
    from that have "\<exists>r. (Close, r) \<in> set (run_events lib ?w1)"
      by (simp add: shape)
    then have "\<forall>c\<in>set (butlast seven_steps). (c, None) \<in> set (run_events lib ?w1)"
      by (simp only: close_iff)
    then show ?thesis by (simp add: shape)
  qed
  with once show ?thesis by (simp add: shape)
qed

theorem context_exit_on_every_path_witness:
  "outcome (failing (Goto ''http://localhost:5173/'') NavigationError) (history fresh) Enter = None
   \<and> last (script_events (failing (Goto ''http://localhost:5173/'') NavigationError) fresh) =
       (Exit, None)
   \<and> count_list (map fst (script_events (failing (Goto ''http://localhost:5173/'') NavigationError) fresh)) Exit = 1"
proof -
  have entered:
    "outcome (failing (Goto ''http://localhost:5173/'') NavigationError) (history fresh) Enter = None"
    by (simp add: failing_def)
  from context_exit_on_every_path[OF entered] entered show ?thesis by simp
qed

text \<open>
  The run that refutes C1 as stated: the target is unreachable, so the navigation raises.
  The script ends with that error after the entry, launch, open page, the failed
  navigation and the exit of the context manager; close is not among its calls.
\<close>

theorem close_skipped_when_navigation_fails:
  "script_events (failing (Goto ''http://localhost:5173/'') NavigationError) fresh =
     [(Enter, None), (Launch, None), (New_page, None),
      (Goto ''http://localhost:5173/'', Some NavigationError), (Exit, None)]
   \<and> fst (script (failing (Goto ''http://localhost:5173/'') NavigationError) fresh) =
       Inl NavigationError
   \<and> Close \<notin> set (map fst (script_events (failing (Goto ''http://localhost:5173/'') NavigationError) fresh))"
proof -
  let ?lib = "failing (Goto ''http://localhost:5173/'') NavigationError"
  have shape: "script_events ?lib fresh =
     [(Enter, None), (Launch, None), (New_page, None),
      (Goto ''http://localhost:5173/'', Some NavigationError), (Exit, None)]"
    by (simp add: script_events_eq failing_def fresh_def seven_steps_def)
  have step: "Goto ''http://localhost:5173/'' \<in> set seven_steps"
    by (simp add: seven_steps_def)
  have "(Goto ''http://localhost:5173/'', Some NavigationError) \<in> set (script_events ?lib fresh)"
    by (simp add: shape)
  with step have "fst (script ?lib fresh) = Inl NavigationError"
    by (rule script_raised_shape(3))
  then show ?thesis by (simp add: shape)
qed

end
